theory Spec2Isabelle
  imports Main "HOL-Library.Finite_Map"
begin

section \<open>The cache engine (internal/cache/cache.go)\<close>

text \<open>
  The engine is a Go struct holding a \<^verbatim>\<open>map[string]*CacheEntry\<close>, a capacity and a log file
  name. The model is a shallow embedding with explicit state passing: every method takes the
  engine and returns the engine it leaves behind. The mutex and the goroutine are not
  modelled; each method is one atomic step, which is what the lock gives it, and a pass of
  the periodic sweep is one more such step (\<open>cleanExpired\<close>).

  \<^item> The table is a finite map (\<open>fmap\<close>): a Go map always has finitely many keys and
    \<^verbatim>\<open>len\<close> is the number of them.
  \<^item> \<^verbatim>\<open>interface{}\<close> payloads are a type parameter \<open>'v\<close>.
  \<^item> \<^verbatim>\<open>int64\<close> timestamps are \<open>int\<close>; the two places where the code does arithmetic on
    them go through \<open>add64\<close> and \<open>sub64\<close>, which wrap as Go does.
  \<^item> Every call of \<^verbatim>\<open>time.Now()\<close> is a parameter of the method that makes it: \<open>Unix()\<close>
    readings are seconds, \<open>UnixNano()\<close> readings are nanoseconds.
  \<^item> Go iterates over a map in an unspecified order. The loop of \<^verbatim>\<open>evictLRU\<close> takes the
    order as a parameter, the list of keys in the order the \<^verbatim>\<open>range\<close> clause yields them;
    a key of the list that is not in the table is passed over.
  \<^item> Go's \<^verbatim>\<open>int\<close> is taken as 64 bits wide, so \<^verbatim>\<open>int64(seconds)\<close> and \<^verbatim>\<open>int(...)\<close> of an
    \<^verbatim>\<open>int64\<close> change nothing.
  \<^item> Entries are held by value. In the Go code two keys can share one entry only when
    \<^verbatim>\<open>ImportData\<close> is handed a map that already shares pointers.
\<close>

record 'v CacheEntry =
  Value :: 'v
  ExpiresAt :: int
  LastAccess :: int

record 'v CacheEngine =
  data :: "(string, 'v CacheEntry) fmap"
  maxEntries :: int
  logFile :: string

definition wrap64 :: "int \<Rightarrow> int" where
  "wrap64 x = (x + 2 ^ 63) mod 2 ^ 64 - 2 ^ 63"

definition add64 :: "int \<Rightarrow> int \<Rightarrow> int" where
  "add64 a b = wrap64 (a + b)"

definition sub64 :: "int \<Rightarrow> int \<Rightarrow> int" where
  "sub64 a b = wrap64 (a - b)"

definition len :: "(string, 'v CacheEntry) fmap \<Rightarrow> nat" where
  "len m = fcard (fmdom m)"

definition NewCacheEngine :: "int \<Rightarrow> 'v CacheEngine" where
  "NewCacheEngine n =
     \<lparr>data = fmempty, maxEntries = (if n \<le> 0 then 1000 else n), logFile = []\<rparr>"

text \<open>
  The loop of \<^verbatim>\<open>evictLRU\<close>: \<open>oldestKey\<close> and \<open>oldestTime\<close> are the loop's two variables,
  the list is what is left of the iteration.
\<close>

fun evict_scan ::
  "(string, 'v CacheEntry) fmap \<Rightarrow> string list \<Rightarrow> string \<Rightarrow> int \<Rightarrow> string \<times> int" where
  "evict_scan d [] oldestKey oldestTime = (oldestKey, oldestTime)"
| "evict_scan d (key # rest) oldestKey oldestTime =
     (case fmlookup d key of
        None \<Rightarrow> evict_scan d rest oldestKey oldestTime
      | Some entry \<Rightarrow>
          if LastAccess entry < oldestTime
          then evict_scan d rest key (LastAccess entry)
          else evict_scan d rest oldestKey oldestTime)"

definition evictLRU :: "int \<Rightarrow> string list \<Rightarrow> 'v CacheEngine \<Rightarrow> 'v CacheEngine" where
  "evictLRU now order c =
     (let oldestKey = fst (evict_scan (data c) order [] now)
      in if oldestKey \<noteq> [] then c\<lparr>data := fmdrop oldestKey (data c)\<rparr> else c)"

text \<open>
  \<open>Set evict_now order now key v c\<close>: \<open>evict_now\<close> and \<open>order\<close> are the clock reading and the
  iteration order of the eviction, used only when the capacity check fires; \<open>now\<close> is the
  reading stored in the new entry.
\<close>

definition Set ::
  "int \<Rightarrow> string list \<Rightarrow> int \<Rightarrow> string \<Rightarrow> 'v \<Rightarrow> 'v CacheEngine \<Rightarrow> 'v CacheEngine" where
  "Set evict_now order now key v c =
     (let c1 = (if int (len (data c)) \<ge> maxEntries c then evictLRU evict_now order c else c)
      in c1\<lparr>data := fmupd key \<lparr>Value = v, ExpiresAt = 0, LastAccess = now\<rparr> (data c1)\<rparr>)"

text \<open>
  \<open>Get now_s now_ns key c\<close> returns Go's pair (value, found) and the engine; the value is
  \<open>None\<close> where Go returns \<^verbatim>\<open>nil\<close> on a miss.
\<close>

definition Get ::
  "int \<Rightarrow> int \<Rightarrow> string \<Rightarrow> 'v CacheEngine \<Rightarrow> ('v option \<times> bool) \<times> 'v CacheEngine" where
  "Get now_s now_ns key c =
     (case fmlookup (data c) key of
        None \<Rightarrow> ((None, False), c)
      | Some entry \<Rightarrow>
          if ExpiresAt entry > 0 \<and> ExpiresAt entry \<le> now_s
          then ((None, False), c\<lparr>data := fmdrop key (data c)\<rparr>)
          else ((Some (Value entry), True),
                c\<lparr>data := fmupd key (entry\<lparr>LastAccess := now_ns\<rparr>) (data c)\<rparr>))"

definition Delete :: "string \<Rightarrow> 'v CacheEngine \<Rightarrow> bool \<times> 'v CacheEngine" where
  "Delete key c =
     (case fmlookup (data c) key of
        None \<Rightarrow> (False, c)
      | Some entry \<Rightarrow> (True, c\<lparr>data := fmdrop key (data c)\<rparr>))"

definition Expire :: "int \<Rightarrow> string \<Rightarrow> int \<Rightarrow> 'v CacheEngine \<Rightarrow> bool \<times> 'v CacheEngine" where
  "Expire now_s key seconds c =
     (case fmlookup (data c) key of
        None \<Rightarrow> (False, c)
      | Some entry \<Rightarrow>
          (True, c\<lparr>data := fmupd key (entry\<lparr>ExpiresAt := add64 now_s seconds\<rparr>) (data c)\<rparr>))"

text \<open>
  One pass of the periodic sweep, \<^verbatim>\<open>cleanExpired\<close>: deleting during a Go \<^verbatim>\<open>range\<close> is safe,
  and the test of an entry does not depend on the others, so the pass is a filter.
\<close>

definition cleanExpired :: "int \<Rightarrow> 'v CacheEngine \<Rightarrow> 'v CacheEngine" where
  "cleanExpired now_s c =
     c\<lparr>data := fmfilter
        (\<lambda>key. case fmlookup (data c) key of
                 None \<Rightarrow> False
               | Some entry \<Rightarrow> \<not> (ExpiresAt entry > 0 \<and> ExpiresAt entry \<le> now_s))
        (data c)\<rparr>"

definition Size :: "'v CacheEngine \<Rightarrow> nat" where
  "Size c = len (data c)"

definition MaxEntries :: "'v CacheEngine \<Rightarrow> int" where
  "MaxEntries c = maxEntries c"

definition ImportData :: "(string, 'v CacheEntry) fmap \<Rightarrow> 'v CacheEngine \<Rightarrow> 'v CacheEngine" where
  "ImportData d c = c\<lparr>data := d\<rparr>"

section \<open>Log replay (internal/persistence/persistence.go)\<close>

record 'v LogEntry =
  Operation :: string
  Key :: string
  LValue :: 'v
  LExpiresAt :: int
  Timestamp :: int

definition DefaultLogFile :: string where
  "DefaultLogFile = ''cache.log''"

text \<open>
  \<^verbatim>\<open>LoadFromLog\<close> reads the file through \<^verbatim>\<open>json.Decoder\<close> of Go's standard library, which
  is not part of the repository. The model takes what the decoder delivers: a readable file is
  the list of the outcomes of the successive \<^verbatim>\<open>Decode\<close> calls, each either a decoded record
  or the message of the error returned. At the end of the list \<^verbatim>\<open>Decode\<close> returns \<^verbatim>\<open>io.EOF\<close>,
  whose message is \<open>EOF\<close>. For input that ends inside a JSON value the decoder returns
  \<^verbatim>\<open>io.ErrUnexpectedEOF\<close>, whose message is \<open>unexpected EOF\<close>.
\<close>

datatype 'v decode_result = Decoded "'v LogEntry" | DecodeError string

datatype 'v file_state = NotExist | OpenFails string | Readable "'v decode_result list"

definition io_EOF :: string where
  "io_EOF = ''EOF''"

definition io_ErrUnexpectedEOF :: string where
  "io_ErrUnexpectedEOF = ''unexpected EOF''"

text \<open>
  The clock readings and the iteration order that the engine calls of one loop iteration
  use: \<open>t_evict\<close>, \<open>map_order\<close> and \<open>t_set\<close> for \<^verbatim>\<open>Set\<close>, \<open>t_expire\<close> for
  \<^verbatim>\<open>Expire\<close>.
\<close>

record env =
  t_evict :: int
  map_order :: "string list"
  t_set :: int
  t_expire :: int

text \<open>The body of the \<^verbatim>\<open>switch\<close>; \<^verbatim>\<open>int(...)\<close> of an \<^verbatim>\<open>int64\<close> is the identity on 64-bit Go.\<close>

definition apply_entry :: "env \<Rightarrow> 'v LogEntry \<Rightarrow> 'v CacheEngine \<Rightarrow> 'v CacheEngine" where
  "apply_entry ev logEntry c =
     (if Operation logEntry = ''SET'' then
        (let c1 = Set (t_evict ev) (map_order ev) (t_set ev) (Key logEntry) (LValue logEntry) c
         in if LExpiresAt logEntry > 0 then
              (let seconds = sub64 (LExpiresAt logEntry) (Timestamp logEntry)
               in if seconds > 0 then snd (Expire (t_expire ev) (Key logEntry) seconds c1) else c1)
            else c1)
      else if Operation logEntry = ''DEL'' then snd (Delete (Key logEntry) c)
      else if Operation logEntry = ''EXPIRE'' then
        (let seconds = sub64 (LExpiresAt logEntry) (Timestamp logEntry)
         in if seconds > 0 then snd (Expire (t_expire ev) (Key logEntry) seconds c) else c)
      else c)"

text \<open>
  The \<^verbatim>\<open>for\<close> loop. \<open>envs i\<close> is the environment of iteration \<open>i\<close>. The result is the
  returned error (\<open>None\<close> for \<^verbatim>\<open>nil\<close>) and the engine as the loop leaves it.
\<close>

fun replay ::
  "(nat \<Rightarrow> env) \<Rightarrow> nat \<Rightarrow> 'v decode_result list \<Rightarrow> 'v CacheEngine
     \<Rightarrow> string option \<times> 'v CacheEngine" where
  "replay envs i [] c = (None, c)"
| "replay envs i (DecodeError msg # rest) c =
     (if msg = ''EOF'' then (None, c)
      else (Some (''error al leer entrada del log: '' @ msg), c))"
| "replay envs i (Decoded logEntry # rest) c =
     replay envs (Suc i) rest (apply_entry (envs i) logEntry c)"

definition LoadFromLog ::
  "(string \<Rightarrow> 'v file_state) \<Rightarrow> (nat \<Rightarrow> env) \<Rightarrow> string \<Rightarrow> 'v CacheEngine
     \<Rightarrow> string option \<times> 'v CacheEngine" where
  "LoadFromLog fs envs filename c =
     (let filename = (if filename = [] then DefaultLogFile else filename)
      in case fs filename of
           NotExist \<Rightarrow> (Some (''archivo de log no existe: '' @ filename), c)
         | OpenFails msg \<Rightarrow> (Some (''error al abrir archivo de log: '' @ msg), c)
         | Readable chunks \<Rightarrow> replay envs 0 chunks c)"

section \<open>Concrete engines and logs\<close>

text \<open>
  Engines built through the public interface and small log files, used to run the model.
  Where the capacity check of \<^verbatim>\<open>Set\<close> does not fire the eviction parameters are not read
  and are given as \<open>0\<close> and \<open>[]\<close>.
\<close>

definition full_state :: "string CacheEngine" where
  "full_state = Set 0 [] 2 ''b'' ''vb'' (Set 0 [] 1 ''a'' ''va'' (NewCacheEngine 2))"

definition empty_key_state :: "string CacheEngine" where
  "empty_key_state = Set 0 [] 1 [] ''v0'' (NewCacheEngine 1)"

definition touched_state :: "string CacheEngine" where
  "touched_state =
     snd (Get 0 3 ''a'' (Set 0 [] 2 ''a'' ''va'' (Set 0 [] 1 [] ''v0'' (NewCacheEngine 2))))"

definition ttl_state :: "string CacheEngine" where
  "ttl_state = Set 0 [] 1 ''k'' ''v'' (NewCacheEngine 10)"

definition expired_state :: "string CacheEngine" where
  "expired_state = snd (Expire 100 ''k'' 5 ttl_state)"

definition past_state :: "string CacheEngine" where
  "past_state = snd (Expire 100 ''k'' (- 200) ttl_state)"

definition set_a :: "string LogEntry" where
  "set_a = \<lparr>Operation = ''SET'', Key = ''a'', LValue = ''1'', LExpiresAt = 0, Timestamp = 5\<rparr>"

definition set_b :: "string LogEntry" where
  "set_b = \<lparr>Operation = ''SET'', Key = ''b'', LValue = ''2'', LExpiresAt = 0, Timestamp = 6\<rparr>"

definition clean_log :: "string decode_result list" where
  "clean_log = [Decoded set_a]"

definition truncated_log :: "string decode_result list" where
  "truncated_log = [Decoded set_a, DecodeError io_ErrUnexpectedEOF]"

definition type_error :: string where
  "type_error = ''json: cannot unmarshal number into Go struct field LogEntry.key of type string''"

definition corrupt_log :: "string decode_result list" where
  "corrupt_log = [Decoded set_a, DecodeError type_error, Decoded set_b]"

definition foo_record :: "string LogEntry" where
  "foo_record =
     \<lparr>Operation = ''FOO'', Key = ''a'', LValue = ''1'', LExpiresAt = 0, Timestamp = 5\<rparr>"

definition unknown_op_log :: "string decode_result list" where
  "unknown_op_log = [Decoded foo_record, Decoded set_b]"

definition one_file :: "'v decode_result list \<Rightarrow> string \<Rightarrow> 'v file_state" where
  "one_file chunks name = (if name = ''cache.log'' then Readable chunks else NotExist)"

definition steady_env :: "nat \<Rightarrow> env" where
  "steady_env i =
     \<lparr>t_evict = 10 + 2 * int i, map_order = [], t_set = 11 + 2 * int i, t_expire = 1\<rparr>"

section \<open>Auxiliary facts\<close>

lemmas eval_simps =
  Set_def Get_def Expire_def Delete_def NewCacheEngine_def Size_def MaxEntries_def
  len_def evictLRU_def Let_def fcard_finsert_if fcard_fempty

lemma wrap64_id: "- (2 ^ 63) \<le> x \<Longrightarrow> x < 2 ^ 63 \<Longrightarrow> wrap64 x = x"
  by (simp add: wrap64_def)

subsection \<open>The scan of \<^verbatim>\<open>evictLRU\<close>\<close>

text \<open>
  The scan either leaves its two variables as they were, or ends on a key of the iteration
  whose entry is strictly older than the starting time.
\<close>

lemma evict_scan_cases:
  "evict_scan d ks ok ot = (k', t') \<Longrightarrow>
     (k' = ok \<and> t' = ot)
     \<or> (k' \<in> set ks \<and> t' < ot \<and> (\<exists>e. fmlookup d k' = Some e \<and> LastAccess e = t'))"
  by (induction ks arbitrary: ok ot) (fastforce split: option.splits if_splits)+

lemma evict_scan_le_init: "evict_scan d ks ok ot = (k', t') \<Longrightarrow> t' \<le> ot"
  by (induction ks arbitrary: ok ot) (fastforce split: option.splits if_splits)+

lemma evict_scan_lower:
  "evict_scan d ks ok ot = (k', t') \<Longrightarrow> k \<in> set ks \<Longrightarrow> fmlookup d k = Some e
     \<Longrightarrow> t' \<le> LastAccess e"
proof (induction ks arbitrary: ok ot)
  case Nil
  then show ?case by simp
next
  case (Cons a ks)
  then show ?case
    using evict_scan_le_init
    by (fastforce split: option.splits if_splits)
qed

lemma evict_scan_finds:
  assumes "k \<in> set ks" and "fmlookup d k = Some e" and "LastAccess e < ot"
  shows "snd (evict_scan d ks ok ot) < ot"
proof -
  obtain k' t' where r: "evict_scan d ks ok ot = (k', t')"
    by (cases "evict_scan d ks ok ot")
  from evict_scan_lower [OF r assms(1,2)] assms(3) r show ?thesis by simp
qed

lemma evict_scan_empty_min:
  assumes e0: "fmlookup d [] = Some e0"
    and least: "\<forall>k e. k \<noteq> [] \<longrightarrow> fmlookup d k = Some e \<longrightarrow> LastAccess e0 < LastAccess e"
    and ord: "[] \<in> set ks"
  shows "fst (evict_scan d ks [] now) = []"
proof (rule ccontr)
  assume ne: "fst (evict_scan d ks [] now) \<noteq> []"
  obtain k' t' where r: "evict_scan d ks [] now = (k', t')"
    by (cases "evict_scan d ks [] now")
  with ne have k': "k' \<noteq> []" by simp
  from evict_scan_cases [OF r] k' obtain e where
    e: "fmlookup d k' = Some e" "LastAccess e = t'" by auto
  from evict_scan_lower [OF r ord e0] have "t' \<le> LastAccess e0" .
  moreover from least k' e have "LastAccess e0 < t'" by auto
  ultimately show False by simp
qed

subsection \<open>What \<^verbatim>\<open>evictLRU\<close> does on a table without the empty key\<close>

text \<open>
  When \<^verbatim>\<open>evictLRU\<close> removes an entry, the entry has the least \<open>LastAccess\<close> of the table,
  its key is not empty and it is older than the clock reading of the eviction.
\<close>

lemma evictLRU_removes_oldest:
  assumes ord: "set order = fmdom' (data c)"
  shows "evictLRU now order c = c
    \<or> (\<exists>k e. k \<noteq> [] \<and> fmlookup (data c) k = Some e \<and> LastAccess e < now
          \<and> (\<forall>k' e'. fmlookup (data c) k' = Some e' \<longrightarrow> LastAccess e \<le> LastAccess e')
          \<and> evictLRU now order c = c\<lparr>data := fmdrop k (data c)\<rparr>)"
proof -
  obtain k t where r: "evict_scan (data c) order [] now = (k, t)"
    by (cases "evict_scan (data c) order [] now")
  show ?thesis
  proof (cases "k = []")
    case True
    with r show ?thesis by (simp add: evictLRU_def)
  next
    case False
    with evict_scan_cases [OF r] obtain e where
      e: "fmlookup (data c) k = Some e" "LastAccess e = t" and lt: "t < now" by auto
    have "LastAccess e \<le> LastAccess e'" if "fmlookup (data c) k' = Some e'" for k' e'
    proof -
      from that ord have "k' \<in> set order" by (simp add: fmdom'I)
      from evict_scan_lower [OF r this that] e show ?thesis by simp
    qed
    with False e r lt show ?thesis
      by (auto simp: evictLRU_def)
  qed
qed

text \<open>
  With no empty key in the table and some entry older than the clock reading, one entry goes.
\<close>

lemma evictLRU_shrinks:
  assumes ord: "set order = fmdom' (data c)"
    and nonempty_keys: "fmlookup (data c) [] = None"
    and older: "fmlookup (data c) k = Some e" "LastAccess e < now"
  shows "Suc (Size (evictLRU now order c)) = Size c"
proof -
  obtain k' t' where r: "evict_scan (data c) order [] now = (k', t')"
    by (cases "evict_scan (data c) order [] now")
  from ord older(1) have "k \<in> set order" by (simp add: fmdom'I)
  from evict_scan_finds [OF this older, of "[]"] r have "t' < now" by simp
  with evict_scan_cases [OF r] obtain e' where e': "fmlookup (data c) k' = Some e'"
    by auto
  with nonempty_keys have "k' \<noteq> []" by auto
  with r have "fmdom (data (evictLRU now order c)) = fmdom (data c) |-| {|k'|}"
    by (simp add: evictLRU_def)
  moreover from e' have "k' |\<in>| fmdom (data c)" by (rule fmdomI)
  then have "Suc (fcard (fmdom (data c) |-| {|k'|})) = fcard (fmdom (data c))"
    by (rule fcard_Suc_fminus1)
  ultimately show ?thesis
    by (simp only: Size_def len_def)
qed

text \<open>
  A \<^verbatim>\<open>Set\<close> keeps the table within its capacity when no key is empty and every entry is
  older than the clock reading of the eviction.
\<close>

lemma Set_keeps_capacity:
  assumes cap: "int (Size c) \<le> maxEntries c" and pos: "1 \<le> maxEntries c"
    and ord: "set order = fmdom' (data c)"
    and nonempty_keys: "fmlookup (data c) [] = None"
    and older: "\<forall>k e. fmlookup (data c) k = Some e \<longrightarrow> LastAccess e < evict_now"
  shows "int (Size (Set evict_now order now key v c))
    \<le> MaxEntries (Set evict_now order now key v c)"
proof (cases "maxEntries c \<le> int (Size c)")
  case False
  then have "int (fcard (finsert key (fmdom (data c)))) \<le> maxEntries c"
    by (simp add: fcard_finsert_if Size_def len_def)
  with False show ?thesis
    by (simp add: Set_def Size_def len_def MaxEntries_def)
next
  case True
  with cap pos have "Size c \<noteq> 0" by auto
  then obtain k where "k |\<in>| fmdom (data c)"
    by (auto simp: Size_def len_def)
  then obtain e where e: "fmlookup (data c) k = Some e" by auto
  with older have "LastAccess e < evict_now" by auto
  from evictLRU_shrinks [OF ord nonempty_keys e this] cap
  have "int (Size (evictLRU evict_now order c)) + 1 \<le> maxEntries c" by simp
  moreover have "maxEntries (evictLRU evict_now order c) = maxEntries c"
    by (simp add: evictLRU_def Let_def)
  ultimately show ?thesis
    using True by (simp add: Set_def Let_def Size_def len_def MaxEntries_def fcard_finsert_if)
qed

text \<open>
  A non-empty key whose entry is strictly the oldest, and older than the clock reading, is
  the one \<^verbatim>\<open>evictLRU\<close> removes, whatever the iteration order.
\<close>

lemma evictLRU_unique_oldest:
  assumes ord: "set order = fmdom' (data c)"
    and u: "fmlookup (data c) u = Some eu" "u \<noteq> []" "LastAccess eu < now"
    and least: "\<forall>k e. k \<noteq> u \<longrightarrow> fmlookup (data c) k = Some e \<longrightarrow> LastAccess eu < LastAccess e"
  shows "evictLRU now order c = c\<lparr>data := fmdrop u (data c)\<rparr>"
proof -
  obtain k' t' where r: "evict_scan (data c) order [] now = (k', t')"
    by (cases "evict_scan (data c) order [] now")
  from ord u(1) have mem: "u \<in> set order" by (simp add: fmdom'I)
  from evict_scan_finds [OF mem u(1,3), of "[]"] r have "t' < now" by simp
  with evict_scan_cases [OF r] obtain e' where
    e': "fmlookup (data c) k' = Some e'" "LastAccess e' = t'" by auto
  from evict_scan_lower [OF r mem u(1)] have "t' \<le> LastAccess eu" .
  with least e' have "k' = u" by force
  with r u(2) show ?thesis by (simp add: evictLRU_def)
qed

subsection \<open>The sweep\<close>

text \<open>The sweep keeps every entry that has no expiration, and every entry not yet due.\<close>

lemma cleanExpired_keeps:
  "fmlookup (data c) k = Some e \<Longrightarrow> \<not> (0 < ExpiresAt e \<and> ExpiresAt e \<le> now_s)
     \<Longrightarrow> fmlookup (data (cleanExpired now_s c)) k = Some e"
  by (simp add: cleanExpired_def)

lemma cleanExpired_removes:
  "fmlookup (data c) k = Some e \<Longrightarrow> 0 < ExpiresAt e \<Longrightarrow> ExpiresAt e \<le> now_s
     \<Longrightarrow> fmlookup (data (cleanExpired now_s c)) k = None"
  by (simp add: cleanExpired_def)

subsection \<open>The replay loop on decoded records\<close>

lemma replay_Decoded:
  "replay envs i (map Decoded es) c =
     (None, foldl (\<lambda>s (j, e). apply_entry (envs j) e s) c (enumerate i es))"
  by (induction es arbitrary: i c) simp_all

lemma replay_Decoded_append:
  "replay envs i (map Decoded es @ rest) c =
     replay envs (i + length es) rest (snd (replay envs i (map Decoded es) c))"
  by (induction es arbitrary: i c) simp_all

section \<open>Properties of the engine and of the replay\<close>

subsection \<open>Overwriting at full capacity\<close>

text \<open>
  C1. At exactly full capacity, \<^verbatim>\<open>Set\<close> on a key that is already in the table should evict no
  other key and leave \<open>Size\<close> unchanged. The code runs the capacity check before it looks
  at the key: an engine of capacity 2 holding \<open>a\<close> (last access 1) and \<open>b\<close> (last access 2)
  is full, and overwriting \<open>b\<close> removes \<open>a\<close> and leaves one entry, in either iteration order.
\<close>

theorem Set_overwrite_evicts:
  "Size full_state = 2 \<and> MaxEntries full_state = 2
   \<and> fmlookup (data full_state) ''a'' = Some \<lparr>Value = ''va'', ExpiresAt = 0, LastAccess = 1\<rparr>
   \<and> fmlookup (data full_state) ''b'' = Some \<lparr>Value = ''vb'', ExpiresAt = 0, LastAccess = 2\<rparr>
   \<and> fmlookup (data (Set 3 [''a'', ''b''] 4 ''b'' ''x'' full_state)) ''a'' = None
   \<and> fmlookup (data (Set 3 [''b'', ''a''] 4 ''b'' ''x'' full_state)) ''a'' = None
   \<and> Size (Set 3 [''a'', ''b''] 4 ''b'' ''x'' full_state) = 1
   \<and> Size (Set 3 [''b'', ''a''] 4 ''b'' ''x'' full_state) = 1"
  by (simp add: full_state_def eval_simps)

subsection \<open>The capacity bound\<close>

text \<open>
  C2. After each \<^verbatim>\<open>Set\<close> of a sequence with pairwise distinct keys on a fresh engine,
  \<open>Size \<le> Capacity\<close> should hold. \<^verbatim>\<open>evictLRU\<close> uses the empty string for "no key found",
  so an entry stored under the empty key is never evicted: on a fresh engine of capacity 1,
  \<^verbatim>\<open>Set("", v0)\<close> followed by \<^verbatim>\<open>Set("a", v1)\<close> leaves two entries.
\<close>

theorem Set_empty_key_over_capacity:
  "Size (NewCacheEngine 1 :: string CacheEngine) = 0
   \<and> Size empty_key_state = 1 \<and> MaxEntries empty_key_state = 1
   \<and> Size (Set 2 [[]] 3 ''a'' ''v1'' empty_key_state) = 2
   \<and> MaxEntries (Set 2 [[]] 3 ''a'' ''v1'' empty_key_state) = 1"
  by (simp add: empty_key_state_def eval_simps)

subsection \<open>Which entry is evicted\<close>

text \<open>
  C3. With capacity N, after N distinct keys are inserted and all but one are touched by
  \<^verbatim>\<open>Get\<close>, inserting one more key should evict exactly the untouched key. With capacity 2,
  the keys \<open>""\<close> and \<open>a\<close> inserted at times 1 and 2, and \<open>a\<close> read at time 3, the untouched
  key is the empty one. Inserting \<open>b\<close> then evicts nothing: the empty key is still
  retrievable and the table holds three entries, in either iteration order.
\<close>

theorem untouched_empty_key_survives:
  "Size touched_state = 2 \<and> MaxEntries touched_state = 2
   \<and> fmlookup (data touched_state) [] = Some \<lparr>Value = ''v0'', ExpiresAt = 0, LastAccess = 1\<rparr>
   \<and> fmlookup (data touched_state) ''a'' = Some \<lparr>Value = ''va'', ExpiresAt = 0, LastAccess = 3\<rparr>
   \<and> fst (Get 0 6 [] (Set 4 [[], ''a''] 5 ''b'' ''vb'' touched_state)) = (Some ''v0'', True)
   \<and> fst (Get 0 6 [] (Set 4 [''a'', []] 5 ''b'' ''vb'' touched_state)) = (Some ''v0'', True)
   \<and> Size (Set 4 [[], ''a''] 5 ''b'' ''vb'' touched_state) = 3
   \<and> Size (Set 4 [''a'', []] 5 ''b'' ''vb'' touched_state) = 3"
  by (simp add: touched_state_def eval_simps)

subsection \<open>Reading\<close>

text \<open>
  C4, as stated, has \<^verbatim>\<open>Get\<close> delete every entry whose expiration is set and at or before
  now. Only zero stands for "no expiration", and \<^verbatim>\<open>Expire\<close> stores \<open>now + ttl\<close> whatever
  its sign: at second 100, \<^verbatim>\<open>Expire\<close> with \<open>- 200\<close> stores \<open>ExpiresAt = - 100\<close>, which is
  set and before now. \<^verbatim>\<open>Get\<close> tests \<open>ExpiresAt > 0\<close>, so it keeps that entry, refreshes
  its \<open>LastAccess\<close> and returns the value with found = true.
\<close>

theorem Get_negative_expiry_found:
  "fmlookup (data past_state) ''k'' = Some \<lparr>Value = ''v'', ExpiresAt = - 100, LastAccess = 1\<rparr>
   \<and> fst (Get 100 7 ''k'' past_state) = (Some ''v'', True)
   \<and> fmlookup (data (snd (Get 100 7 ''k'' past_state))) ''k''
       = Some \<lparr>Value = ''v'', ExpiresAt = - 100, LastAccess = 7\<rparr>"
  by (simp add: past_state_def ttl_state_def eval_simps add64_def wrap64_def)

text \<open>
  C4, amended. \<^verbatim>\<open>Get\<close> on an absent key returns found = false and changes nothing. On a
  key whose entry has \<open>ExpiresAt > 0\<close> and \<open>ExpiresAt \<le> now\<close> (the current second), it removes
  that entry, keeps every other entry, and returns found = false. Otherwise, which includes
  every entry with \<open>ExpiresAt \<le> 0\<close>, it stores the current nanosecond reading as the entry's
  \<open>LastAccess\<close>, keeps every other entry, and returns the value with found = true.
\<close>

theorem Get_cases:
  "(fmlookup (data c) key = None \<longrightarrow> Get now_s now_ns key c = ((None, False), c))
   \<and> (fmlookup (data c) key = Some e \<and> 0 < ExpiresAt e \<and> ExpiresAt e \<le> now_s \<longrightarrow>
        fst (Get now_s now_ns key c) = (None, False)
        \<and> fmlookup (data (snd (Get now_s now_ns key c))) key = None
        \<and> (\<forall>k. k \<noteq> key \<longrightarrow>
              fmlookup (data (snd (Get now_s now_ns key c))) k = fmlookup (data c) k))
   \<and> (fmlookup (data c) key = Some e \<and> \<not> (0 < ExpiresAt e \<and> ExpiresAt e \<le> now_s) \<longrightarrow>
        fst (Get now_s now_ns key c) = (Some (Value e), True)
        \<and> fmlookup (data (snd (Get now_s now_ns key c))) key = Some (e\<lparr>LastAccess := now_ns\<rparr>)
        \<and> (\<forall>k. k \<noteq> key \<longrightarrow>
              fmlookup (data (snd (Get now_s now_ns key c))) k = fmlookup (data c) k))"
  by (auto simp: Get_def)

theorem Get_cases_witness:
  "Get 0 9 ''z'' full_state = ((None, False), full_state)
   \<and> fst (Get 200 9 ''k'' expired_state) = (None, False)
   \<and> fmlookup (data (snd (Get 200 9 ''k'' expired_state))) ''k'' = None
   \<and> fst (Get 0 9 ''a'' full_state) = (Some ''va'', True)
   \<and> fmlookup (data (snd (Get 0 9 ''a'' full_state))) ''a''
       = Some \<lparr>Value = ''va'', ExpiresAt = 0, LastAccess = 9\<rparr>
   \<and> fmlookup (data (snd (Get 0 9 ''a'' full_state))) ''b'' = fmlookup (data full_state) ''b''"
proof -
  have absent: "fmlookup (data full_state) ''z'' = None"
    by (simp add: full_state_def eval_simps)
  have expired: "fmlookup (data expired_state) ''k''
      = Some \<lparr>Value = ''v'', ExpiresAt = 105, LastAccess = 1\<rparr>"
    by (simp add: expired_state_def ttl_state_def eval_simps add64_def wrap64_def)
  have live: "fmlookup (data full_state) ''a''
      = Some \<lparr>Value = ''va'', ExpiresAt = 0, LastAccess = 1\<rparr>"
    by (simp add: full_state_def eval_simps)
  show ?thesis
    using Get_cases [where c = full_state and key = "''z''" and now_s = 0 and now_ns = 9]
      Get_cases [where c = expired_state and key = "''k''" and now_s = 200 and now_ns = 9
        and e = "\<lparr>Value = ''v'', ExpiresAt = 105, LastAccess = 1\<rparr>"]
      Get_cases [where c = full_state and key = "''a''" and now_s = 0 and now_ns = 9
        and e = "\<lparr>Value = ''va'', ExpiresAt = 0, LastAccess = 1\<rparr>"]
      absent expired live
    by simp
qed

subsection \<open>Setting an expiration\<close>

text \<open>
  C5, as stated, makes every \<open>ttl_seconds \<le> 0\<close> hide the entry from the next \<^verbatim>\<open>Get\<close>.
  At second 1700000000, \<^verbatim>\<open>Expire\<close> with \<open>- 1700000000\<close> stores \<open>ExpiresAt = 0\<close>, which
  \<^verbatim>\<open>Get\<close> reads as "no expiration": the entry is still returned.
\<close>

theorem Expire_far_past_still_visible:
  "fst (Expire 1700000000 ''k'' (- 1700000000) ttl_state) = True
   \<and> fst (Get 1700000000 7 ''k'' (snd (Expire 1700000000 ''k'' (- 1700000000) ttl_state)))
       = (Some ''v'', True)"
  by (simp add: ttl_state_def eval_simps add64_def wrap64_def)

text \<open>
  C5, amended. \<^verbatim>\<open>Expire\<close> returns false and changes nothing when the key is absent, and
  otherwise stores \<open>now + ttl_seconds\<close> (Go's \<^verbatim>\<open>int64\<close> addition) as the entry's \<open>ExpiresAt\<close>
  and returns true. A \<open>ttl_seconds \<le> 0\<close> with \<open>now + ttl_seconds > 0\<close> is accepted and makes
  the next \<^verbatim>\<open>Get\<close>, at a second not before \<open>now\<close>, report the key absent.
\<close>

theorem Expire_cases:
  "(fmlookup (data c) key = None \<longrightarrow> Expire now_s key ttl c = (False, c))
   \<and> (fmlookup (data c) key = Some e \<longrightarrow>
        Expire now_s key ttl c =
          (True, c\<lparr>data := fmupd key (e\<lparr>ExpiresAt := add64 now_s ttl\<rparr>) (data c)\<rparr>)
        \<and> (ttl \<le> 0 \<and> 0 < now_s + ttl \<and> now_s < 2 ^ 63 \<and> now_s \<le> next_s \<longrightarrow>
             add64 now_s ttl = now_s + ttl
             \<and> fst (Get next_s next_ns key (snd (Expire now_s key ttl c))) = (None, False)))"
proof -
  have "add64 now_s ttl = now_s + ttl" if "ttl \<le> 0" "0 < now_s + ttl" "now_s < 2 ^ 63"
    unfolding add64_def using that by (intro wrap64_id) auto
  then show ?thesis
    by (auto simp: Expire_def Get_def)
qed

theorem Expire_cases_witness:
  "Expire 100 ''z'' (- 30) ttl_state = (False, ttl_state)
   \<and> fst (Expire 100 ''k'' (- 30) ttl_state) = True
   \<and> fmlookup (data (snd (Expire 100 ''k'' (- 30) ttl_state))) ''k''
       = Some \<lparr>Value = ''v'', ExpiresAt = 70, LastAccess = 1\<rparr>
   \<and> fst (Get 100 8 ''k'' (snd (Expire 100 ''k'' (- 30) ttl_state))) = (None, False)"
proof -
  have absent: "fmlookup (data ttl_state) ''z'' = None"
    by (simp add: ttl_state_def eval_simps)
  have present: "fmlookup (data ttl_state) ''k''
      = Some \<lparr>Value = ''v'', ExpiresAt = 0, LastAccess = 1\<rparr>"
    by (simp add: ttl_state_def eval_simps)
  have range: "(- 30 :: int) \<le> 0 \<and> (0 :: int) < 100 + - 30 \<and> (100 :: int) < 2 ^ 63
      \<and> (100 :: int) \<le> 100"
    by simp
  from Expire_cases [where c = ttl_state and key = "''z''" and now_s = 100 and ttl = "- 30"]
    absent
  have z: "Expire 100 ''z'' (- 30) ttl_state = (False, ttl_state)"
    by blast
  from Expire_cases [where c = ttl_state and key = "''k''" and now_s = 100 and ttl = "- 30"
      and next_s = 100 and next_ns = 8
      and e = "\<lparr>Value = ''v'', ExpiresAt = 0, LastAccess = 1\<rparr>"]
    present range
  have k: "Expire 100 ''k'' (- 30) ttl_state =
      (True, ttl_state\<lparr>data := fmupd ''k''
         (\<lparr>Value = ''v'', ExpiresAt = 0, LastAccess = 1\<rparr>\<lparr>ExpiresAt := add64 100 (- 30)\<rparr>)
         (data ttl_state)\<rparr>)"
    and sum: "add64 100 (- 30) = 100 + - 30"
    and hidden: "fst (Get 100 8 ''k'' (snd (Expire 100 ''k'' (- 30) ttl_state))) = (None, False)"
    by blast+
  from k sum have "fmlookup (data (snd (Expire 100 ''k'' (- 30) ttl_state))) ''k''
      = Some \<lparr>Value = ''v'', ExpiresAt = 70, LastAccess = 1\<rparr>"
    by simp
  with z k hidden show ?thesis
    by (simp del: fmupd_lookup)
qed

subsection \<open>Log replay: the end of the file\<close>

text \<open>
  C6, as stated, has \<^verbatim>\<open>LoadFromLog\<close> stop and report success at a truncated record
  that ends the file. The decoder reports such a record as \<open>unexpected EOF\<close>; the loop
  ends quietly only on the message \<open>EOF\<close>, so the load returns an error.
\<close>

theorem truncated_log_fails:
  "fst (LoadFromLog (one_file truncated_log) steady_env ''cache.log'' (NewCacheEngine 10))
     = Some ''error al leer entrada del log: unexpected EOF''"
  by (simp add: LoadFromLog_def one_file_def truncated_log_def io_ErrUnexpectedEOF_def)

text \<open>
  C6, amended. When the file ends after its last complete record, \<^verbatim>\<open>LoadFromLog\<close> stops
  and reports success, every record applied in file order. When the file ends in a truncated
  record, \<^verbatim>\<open>LoadFromLog\<close> stops there and returns the error \<open>unexpected EOF\<close>; the records
  before it stay applied.
\<close>

theorem LoadFromLog_end_of_file:
  "(fs (if filename = [] then DefaultLogFile else filename) = Readable (map Decoded es) \<longrightarrow>
      LoadFromLog fs envs filename c =
        (None, foldl (\<lambda>s (j, e). apply_entry (envs j) e s) c (enumerate 0 es)))
   \<and> (fs (if filename = [] then DefaultLogFile else filename) =
        Readable (map Decoded es @ [DecodeError io_ErrUnexpectedEOF]) \<longrightarrow>
      LoadFromLog fs envs filename c =
        (Some ''error al leer entrada del log: unexpected EOF'',
         foldl (\<lambda>s (j, e). apply_entry (envs j) e s) c (enumerate 0 es)))"
  by (simp add: LoadFromLog_def replay_Decoded_append replay_Decoded io_ErrUnexpectedEOF_def)

theorem LoadFromLog_end_of_file_witness:
  "LoadFromLog (one_file clean_log) steady_env [] (NewCacheEngine 10)
     = (None, Set 10 [] 11 ''a'' ''1'' (NewCacheEngine 10))
   \<and> LoadFromLog (one_file truncated_log) steady_env [] (NewCacheEngine 10)
     = (Some ''error al leer entrada del log: unexpected EOF'',
        Set 10 [] 11 ''a'' ''1'' (NewCacheEngine 10))"
proof -
  have clean: "one_file clean_log (if [] = [] then DefaultLogFile else [])
      = Readable (map Decoded [set_a])"
    by (simp add: one_file_def clean_log_def DefaultLogFile_def)
  have truncated: "one_file truncated_log (if [] = [] then DefaultLogFile else [])
      = Readable (map Decoded [set_a] @ [DecodeError io_ErrUnexpectedEOF])"
    by (simp add: one_file_def truncated_log_def DefaultLogFile_def)
  have applied: "foldl (\<lambda>s (j, e). apply_entry (steady_env j) e s) (NewCacheEngine 10)
      (enumerate 0 [set_a]) = Set 10 [] 11 ''a'' ''1'' (NewCacheEngine 10)"
    by (simp add: apply_entry_def set_a_def steady_env_def)
  from LoadFromLog_end_of_file [where fs = "one_file clean_log" and filename = "[]"
      and es = "[set_a]" and envs = steady_env and c = "NewCacheEngine 10"] clean
  have 1: "LoadFromLog (one_file clean_log) steady_env [] (NewCacheEngine 10)
      = (None, foldl (\<lambda>s (j, e). apply_entry (steady_env j) e s) (NewCacheEngine 10)
           (enumerate 0 [set_a]))"
    by blast
  from LoadFromLog_end_of_file [where fs = "one_file truncated_log" and filename = "[]"
      and es = "[set_a]" and envs = steady_env and c = "NewCacheEngine 10"] truncated
  have 2: "LoadFromLog (one_file truncated_log) steady_env [] (NewCacheEngine 10)
      = (Some ''error al leer entrada del log: unexpected EOF'',
         foldl (\<lambda>s (j, e). apply_entry (steady_env j) e s) (NewCacheEngine 10)
           (enumerate 0 [set_a]))"
    by blast
  from 1 2 show ?thesis
    by (simp only: applied)
qed

subsection \<open>Log replay: a malformed record\<close>

text \<open>
  C7, as stated, has \<^verbatim>\<open>LoadFromLog\<close> abort on every malformed record instead of skipping
  it. The \<^verbatim>\<open>switch\<close> on the operation has no default branch: a record that is well-formed
  JSON but names the operation \<open>FOO\<close> is decoded, matches no case and is passed over; the
  replay goes on with the next record and returns \<^verbatim>\<open>nil\<close>.
\<close>

theorem unknown_operation_skipped:
  "LoadFromLog (one_file unknown_op_log) steady_env ''cache.log'' (NewCacheEngine 10)
     = (None, Set 12 [] 13 ''b'' ''2'' (NewCacheEngine 10))"
  by (simp add: LoadFromLog_def one_file_def unknown_op_log_def foo_record_def set_b_def
      apply_entry_def steady_env_def)

text \<open>
  C7, amended. When \<^verbatim>\<open>Decode\<close> fails on a record with any error other than \<open>EOF\<close>,
  \<^verbatim>\<open>LoadFromLog\<close> returns an error that carries the decoder's message, reads nothing after
  the failing record, and leaves the engine as the records before it made it, applied in
  file order.
\<close>

theorem LoadFromLog_aborts:
  assumes "fs (if filename = [] then DefaultLogFile else filename) =
      Readable (map Decoded es @ DecodeError msg # rest)"
    and "msg \<noteq> ''EOF''"
  shows "LoadFromLog fs envs filename c =
      (Some (''error al leer entrada del log: '' @ msg),
       foldl (\<lambda>s (j, e). apply_entry (envs j) e s) c (enumerate 0 es))"
  using assms
  by (simp add: LoadFromLog_def replay_Decoded_append replay_Decoded)

theorem LoadFromLog_aborts_witness:
  "LoadFromLog (one_file corrupt_log) steady_env ''cache.log'' (NewCacheEngine 10)
     = (Some (''error al leer entrada del log: '' @ type_error),
        Set 10 [] 11 ''a'' ''1'' (NewCacheEngine 10))"
proof -
  have readable: "one_file corrupt_log (if ''cache.log'' = [] then DefaultLogFile else ''cache.log'')
      = Readable (map Decoded [set_a] @ DecodeError type_error # [Decoded set_b])"
    by (simp add: one_file_def corrupt_log_def)
  have msg: "type_error \<noteq> ''EOF''"
    by (simp add: type_error_def)
  have applied: "foldl (\<lambda>s (j, e). apply_entry (steady_env j) e s) (NewCacheEngine 10)
      (enumerate 0 [set_a]) = Set 10 [] 11 ''a'' ''1'' (NewCacheEngine 10)"
    by (simp add: apply_entry_def set_a_def steady_env_def)
  from LoadFromLog_aborts [where fs = "one_file corrupt_log" and filename = "''cache.log''"
      and es = "[set_a]" and msg = type_error and rest = "[Decoded set_b]"
      and envs = steady_env and c = "NewCacheEngine 10", OF readable msg]
  show ?thesis
    by (simp only: applied)
qed

subsection \<open>Importing a table\<close>

text \<open>
  C8. \<^verbatim>\<open>ImportData\<close> makes the given map the table: every lookup is that of the map, \<open>Size\<close>
  is the number of its keys, the capacity is unchanged, and nothing is evicted, so a map with
  more keys than the capacity leaves the engine over its capacity.
\<close>

theorem ImportData_replaces:
  "data (ImportData d c) = d
   \<and> fmlookup (data (ImportData d c)) k = fmlookup d k
   \<and> Size (ImportData d c) = fcard (fmdom d)
   \<and> MaxEntries (ImportData d c) = MaxEntries c
   \<and> (MaxEntries c < int (fcard (fmdom d)) \<longrightarrow>
        MaxEntries (ImportData d c) < int (Size (ImportData d c)))"
  by (simp add: ImportData_def Size_def len_def MaxEntries_def)

theorem ImportData_replaces_witness:
  "MaxEntries (NewCacheEngine 1 :: string CacheEngine) = 1
   \<and> Size (ImportData (data full_state) (NewCacheEngine 1)) = 2
   \<and> MaxEntries (ImportData (data full_state) (NewCacheEngine 1)) = 1
   \<and> fmlookup (data (ImportData (data full_state) (NewCacheEngine 1))) ''a''
       = Some \<lparr>Value = ''va'', ExpiresAt = 0, LastAccess = 1\<rparr>"
proof -
  have keys: "fcard (fmdom (data full_state)) = 2"
    by (simp add: full_state_def eval_simps)
  have cap: "MaxEntries (NewCacheEngine 1 :: string CacheEngine) = 1"
    by (simp add: eval_simps)
  have over: "MaxEntries (NewCacheEngine 1 :: string CacheEngine)
      < int (fcard (fmdom (data full_state)))"
    by (simp add: keys cap)
  have a: "fmlookup (data full_state) ''a'' = Some \<lparr>Value = ''va'', ExpiresAt = 0, LastAccess = 1\<rparr>"
    by (simp add: full_state_def eval_simps)
  from ImportData_replaces [of "data full_state" "NewCacheEngine 1" "''a''"] over keys cap a
  show ?thesis
    by simp
qed

subsection \<open>The empty key as the oldest entry\<close>

text \<open>
  C9. When the entry under the empty key is strictly older than every other entry,
  \<^verbatim>\<open>evictLRU\<close> removes nothing, whatever the clock reading and the iteration order. A
  \<^verbatim>\<open>Set\<close> of a new key on such a table at full capacity therefore adds an entry and leaves
  the table above its capacity.
\<close>

theorem evictLRU_empty_key_oldest:
  assumes "fmlookup (data c) [] = Some e0"
    and "\<forall>k e. k \<noteq> [] \<longrightarrow> fmlookup (data c) k = Some e \<longrightarrow> LastAccess e0 < LastAccess e"
    and "set order = fmdom' (data c)"
  shows "evictLRU evict_now order c = c
    \<and> (fmlookup (data c) key = None \<and> MaxEntries c \<le> int (Size c) \<longrightarrow>
         Size (Set evict_now order now key v c) = Size c + 1
         \<and> MaxEntries (Set evict_now order now key v c)
             < int (Size (Set evict_now order now key v c)))"
proof -
  have "[] \<in> set order"
    using assms(1,3) by (simp add: fmdom'I)
  then have "fst (evict_scan (data c) order [] evict_now) = []"
    using assms(1,2) by (rule evict_scan_empty_min [rotated 2])
  then have ev: "evictLRU evict_now order c = c"
    by (simp add: evictLRU_def)
  show ?thesis
  proof (intro conjI impI)
    show "evictLRU evict_now order c = c" by (rule ev)
  next
    assume a: "fmlookup (data c) key = None \<and> MaxEntries c \<le> int (Size c)"
    then have "key |\<notin>| fmdom (data c)" by (simp add: fmdom_notI)
    then show sz: "Size (Set evict_now order now key v c) = Size c + 1"
      using a by (simp add: Set_def ev Size_def len_def MaxEntries_def fcard_finsert_disjoint)
    have "MaxEntries (Set evict_now order now key v c) = MaxEntries c"
      by (simp add: Set_def Let_def MaxEntries_def evictLRU_def)
    with sz a show "MaxEntries (Set evict_now order now key v c)
        < int (Size (Set evict_now order now key v c))"
      by simp
  qed
qed

theorem evictLRU_empty_key_oldest_witness:
  "evictLRU 2 [[]] empty_key_state = empty_key_state
   \<and> Size empty_key_state = 1
   \<and> Size (Set 2 [[]] 3 ''a'' ''v1'' empty_key_state) = 2
   \<and> MaxEntries (Set 2 [[]] 3 ''a'' ''v1'' empty_key_state) = 1"
proof -
  have 1: "fmlookup (data empty_key_state) []
      = Some \<lparr>Value = ''v0'', ExpiresAt = 0, LastAccess = 1\<rparr>"
    by (simp add: empty_key_state_def eval_simps)
  have 2: "\<forall>k e. k \<noteq> [] \<longrightarrow> fmlookup (data empty_key_state) k = Some e \<longrightarrow>
      LastAccess \<lparr>Value = ''v0'', ExpiresAt = 0, LastAccess = 1\<rparr> < LastAccess e"
    by (simp add: empty_key_state_def eval_simps)
  have 3: "set [[]] = fmdom' (data empty_key_state)"
    by (simp add: empty_key_state_def eval_simps)
  have 4: "fmlookup (data empty_key_state) ''a'' = None
      \<and> MaxEntries empty_key_state \<le> int (Size empty_key_state)"
    by (simp add: empty_key_state_def eval_simps)
  have 5: "Size empty_key_state = 1"
    by (simp add: empty_key_state_def eval_simps)
  have 6: "MaxEntries (Set 2 [[]] 3 ''a'' ''v1'' empty_key_state) = 1"
    by (simp add: empty_key_state_def eval_simps)
  from evictLRU_empty_key_oldest [OF 1 2 3, of 2 "''a''" 3 "''v1''"] 4 5 6
  show ?thesis by simp
qed

subsection \<open>Expire on an entry that has already expired\<close>



end
